theory Spec2Isabelle
  imports Main "HOL-Library.Word"
begin

unbundle bit_operations_syntax

section \<open>The streamingData example of the RF24 library (examples_pico/streamingData.cpp)\<close>

text \<open>
  The program keeps three globals (\<open>role\<close>, \<open>buffer\<close>, \<open>counter\<close>) and talks to three
  collaborators: the radio driver, the console and the board's clock. The globals are a
  record that every function takes and returns. The collaborators are not part of the
  program: what they answer is an input of the model, and what the program asks of them
  is appended, in order, to a trace of events.
\<close>

subsection \<open>Data\<close>

text \<open>\<open>char\<close> and \<open>uint8_t\<close> are 8-bit words: arithmetic on them wraps modulo 256.\<close>

type_synonym byte = "8 word"

text \<open>\<open>#define SIZE 32\<close>\<close>

definition SIZE :: nat where
  "SIZE = 32"

text \<open>The calls the program makes on the \<open>radio\<close> object.\<close>

datatype radio_call =
    Begin
  | SetPALevel
  | SetPayloadSize nat
  | OpenWritingPipe string
  | OpenReadingPipe nat string
  | StopListening
  | StartListening
  | PrintPrettyDetails
  | FlushTx
  | WriteFast "byte list"
  | ReUseTX
  | Available
  | Read nat

text \<open>
  The lines the program prints. Each constructor is one \<open>printf\<close> of the source, with
  the arguments that its format string shows: \<open>TooManyFailures\<close> carries \<open>buffer[0]\<close>,
  \<open>TimeToTransmit\<close> the number of failures (the elapsed time comes from the clock and is
  left out), \<open>Received\<close> the characters that \<open>%s\<close> prints from \<open>buffer\<close>.
\<close>

datatype message =
    NotResponding
  | Intro
  | WhichRadio
  | RadioNumber bool
  | PressT
  | TooManyFailures byte
  | TimeToTransmit byte
  | Received "byte list"
  | ChangingToTransmit
  | ChangingToReceive

datatype event =
    Radio radio_call
  | Printf message
  | SleepMs nat
  | GetcharTimeoutUs nat
  | Getchar
  | ToUsSinceBoot
  | TudCdcConnected
  | StdioInitAll

record state =
  role :: bool
  counter :: byte
  buffer :: "byte list"
  trace :: "event list"

definition emit :: "event \<Rightarrow> state \<Rightarrow> state" where
  "emit e s = s\<lparr>trace := trace s @ [e]\<rparr>"

text \<open>
  The globals as the program starts: \<open>role = false\<close>, \<open>counter = 0\<close>, and the
  \<open>SIZE + 1\<close> bytes of \<open>buffer\<close>, zero as every global without an initialiser.
\<close>

definition initial_state :: state where
  "initial_state = \<lparr>role = False, counter = 0, buffer = replicate (SIZE + 1) 0, trace = []\<rparr>"

text \<open>
  Two things the source takes from the platform and that are not in the repository:
  whether \<open>char\<close> is signed (it is unsigned on the ARM targets of the Pico SDK), and the
  value of the SDK's \<open>PICO_ERROR_TIMEOUT\<close>. Both are parameters.
\<close>

record platform =
  char_signed :: bool
  PICO_ERROR_TIMEOUT :: int

text \<open>
  What the collaborators answer during one run of \<open>loop\<close>: the result of the \<open>k\<close>-th
  \<open>radio.writeFast\<close> of the tick (counted from 0), the result of \<open>radio.available\<close>,
  the bytes of the payload that \<open>radio.read\<close> fetches (by index), and the value that
  \<open>getchar_timeout_us\<close> returns (a character 0..255, or \<open>PICO_ERROR_TIMEOUT\<close>).
\<close>

record tick_input =
  writeFast_results :: "nat \<Rightarrow> bool"
  available_result :: bool
  read_payload :: "nat \<Rightarrow> byte"
  getchar_result :: int

text \<open>
  What the collaborators answer during \<open>setup\<close>: how often \<open>tud_cdc_connected\<close> says no
  before it says yes (\<open>None\<close>: it never says yes), the result of \<open>radio.begin\<close>, and the
  character that \<open>getchar\<close> returns.
\<close>

record boot_input =
  cdc_wait :: "nat option"
  begin_result :: bool
  getchar_setup :: int

subsection \<open>makePayload\<close>

text \<open>A C++ \<open>bool\<close> stored in a \<open>char\<close>.\<close>

fun bool_to_char :: "bool \<Rightarrow> byte" where
  "bool_to_char True = 1"
| "bool_to_char False = 0"

text \<open>
  The two lines that compute \<open>chr\<close>. The operands are promoted to \<open>int\<close>, so the
  subtractions do not wrap; \<open>(SIZE - 1) / 2\<close> divides non-negative numbers, where C's
  truncating division and \<open>div\<close> agree.
\<close>

definition payload_chr :: "byte \<Rightarrow> byte \<Rightarrow> byte" where
  "payload_chr i j =
     (let chr = bool_to_char ((int SIZE - 1) div 2 + \<bar>(int SIZE - 1) div 2 - uint i\<bar> \<le> uint j)
      in chr OR bool_to_char (uint j < (int SIZE - 1) div 2 - \<bar>(int SIZE - 1) div 2 - uint i\<bar>))"

text \<open>The \<open>for\<close> loop over \<open>j\<close>, a \<open>uint8_t\<close>.\<close>

function makePayload_loop :: "byte \<Rightarrow> byte \<Rightarrow> byte list \<Rightarrow> byte list" where
  "makePayload_loop i j buf =
     (if uint j < int SIZE - 1
      then makePayload_loop i (j + 1) (buf[unat j + 1 := payload_chr i j + 48])
      else buf)"
  by pat_completeness auto

termination makePayload_loop
proof (relation "measure (\<lambda>(i, j, buf). SIZE - 1 - unat j)")
  show "wf (measure (\<lambda>(i, j, buf). SIZE - 1 - unat j))" by simp
next
  fix i j :: byte and buf :: "byte list"
  assume "uint j < int SIZE - 1"
  then have "unat j < 31" unfolding SIZE_def uint_nat by linarith
  then have "unat (j + 1) = unat j + 1" "unat j < SIZE - 1"
    by (simp_all add: unat_word_ariths SIZE_def)
  then show "((i, j + 1, buf[unat j + 1 := payload_chr i j + 48]), (i, j, buf))
      \<in> measure (\<lambda>(i, j, buf). SIZE - 1 - unat j)"
    by simp
qed

declare makePayload_loop.simps [simp del]

text \<open>
  \<open>buffer[0] = i + (i < 26 ? 65 : 71)\<close>: the sum is an \<open>int\<close>, cut to 8 bits by the
  assignment.
\<close>

definition makePayload :: "byte \<Rightarrow> byte list \<Rightarrow> byte list" where
  "makePayload i buf =
     makePayload_loop i 0 (buf[0 := word_of_int (uint i + (if uint i < 26 then 65 else 71))])"

subsection \<open>The radio's read and the console's \<open>%s\<close>\<close>

text \<open>
  Modelled from the spec: \<open>RF24::read\<close> is declared in \<open>RF24.h\<close>, which is not among the
  sources. The spec gives its contract as \<open>receive(buffer, size)\<close>: copy exactly \<open>size\<close>
  bytes of the oldest available received payload into \<open>buffer\<close>. The bytes after the
  first \<open>size\<close> stay as they are.
\<close>

definition radio_read :: "nat \<Rightarrow> (nat \<Rightarrow> byte) \<Rightarrow> byte list \<Rightarrow> byte list" where
  "radio_read len payload buf = map payload [0..<len] @ drop len buf"

text \<open>What \<open>printf\<close> prints for \<open>%s\<close>: the bytes before the first 0.\<close>

definition c_string :: "byte list \<Rightarrow> byte list" where
  "c_string buf = takeWhile (\<lambda>c. c \<noteq> 0) buf"

subsection \<open>loop: the transmitting branch\<close>

text \<open>
  One pass through the body of \<open>while (i < SIZE)\<close> up to the test of \<open>failures\<close>:
  \<open>writeFast\<close> sends the first \<open>SIZE\<close> bytes of \<open>buffer\<close>; \<open>ok\<close> is what it returns.
\<close>

definition tx_attempt :: "bool \<Rightarrow> byte \<Rightarrow> byte \<Rightarrow> state \<Rightarrow> byte \<times> byte \<times> state" where
  "tx_attempt ok i failures s =
     (let s1 = emit (Radio (WriteFast (take SIZE (buffer s)))) s
      in if \<not> ok then (i, failures + 1, emit (Radio ReUseTX) s1)
         else (i + 1, failures, s1))"

text \<open>
  The \<open>while\<close> loop. \<open>i\<close> and \<open>failures\<close> are the \<open>uint8_t\<close> locals; \<open>k\<close> counts the
  passes made so far and selects the result of the next \<open>writeFast\<close>. The function
  returns the final \<open>i\<close>, \<open>failures\<close>, number of passes and state.
\<close>

function tx_loop :: "(nat \<Rightarrow> bool) \<Rightarrow> nat \<Rightarrow> byte \<Rightarrow> byte \<Rightarrow> state \<Rightarrow> byte \<times> byte \<times> nat \<times> state" where
  "tx_loop results k i failures s =
     (if uint i < int SIZE then
        (case tx_attempt (results k) i failures (s\<lparr>buffer := makePayload i (buffer s)\<rparr>) of
           (i', failures', s') \<Rightarrow>
             if 100 \<le> uint failures'
             then (i', failures', Suc k, emit (Printf (TooManyFailures (buffer s' ! 0))) s')
             else tx_loop results (Suc k) i' failures' s')
      else (i, failures, k, s))"
  by pat_completeness auto

termination tx_loop
proof (relation "measure (\<lambda>(results, k, i, failures, s).
          (SIZE - unat i) + (if unat failures < 100 then 100 - unat failures else 356 - unat failures))")
  show "wf (measure (\<lambda>(results, k, i, failures, s).
          (SIZE - unat i) + (if unat failures < 100 then 100 - unat failures else 356 - unat failures)))"
    by simp
next
  fix results :: "nat \<Rightarrow> bool" and k :: nat and i failures i' failures' :: byte
    and s s' :: state and x :: "byte \<times> state"
  assume lt: "uint i < int SIZE"
    and att: "(i', x) = tx_attempt (results k) i failures (s\<lparr>buffer := makePayload i (buffer s)\<rparr>)"
    and x: "(failures', s') = x"
    and go: "\<not> 100 \<le> uint failures'"
  from lt have ui: "unat i < 32" unfolding SIZE_def uint_nat by linarith
  then have suc: "unat (i + 1) = unat i + 1" by (simp add: unat_word_ariths)
  from go have f': "unat failures' < 100" unfolding uint_nat by linarith
  have fb: "unat failures < 256" using unsigned_less[of failures, where ?'a = nat] by simp
  have cases: "(i' = i \<and> failures' = failures + 1) \<or> (i' = i + 1 \<and> failures' = failures)"
    using att x by (auto simp: tx_attempt_def Let_def split: if_splits)
  then show "((results, Suc k, i', failures', s'), (results, k, i, failures, s))
      \<in> measure (\<lambda>(results, k, i, failures, s).
          (SIZE - unat i) + (if unat failures < 100 then 100 - unat failures else 356 - unat failures))"
  proof
    assume a: "i' = i \<and> failures' = failures + 1"
    have "unat (failures + 1) = (unat failures + 1) mod 256"
      by (simp add: unat_word_ariths)
    with a f' fb show ?thesis by (auto simp: SIZE_def split: if_splits)
  next
    assume a: "i' = i + 1 \<and> failures' = failures"
    with f' ui suc show ?thesis by (simp add: SIZE_def)
  qed
qed

declare tx_loop.simps [simp del]

text \<open>The branch \<open>if (role)\<close> of \<open>loop\<close>.\<close>

definition loop_tx :: "tick_input \<Rightarrow> state \<Rightarrow> state" where
  "loop_tx t s =
     (case tx_loop (writeFast_results t) 0 0 0 (emit ToUsSinceBoot (emit (Radio FlushTx) s)) of
        (i, failures, k, s') \<Rightarrow>
          emit (SleepMs 500) (emit (Printf (TimeToTransmit failures)) (emit ToUsSinceBoot s')))"

subsection \<open>loop: the receiving branch\<close>

text \<open>
  \<open>counter++\<close> is an argument of the \<open>printf\<close>, so it is evaluated although the format
  string has no conversion for it.
\<close>

definition loop_rx :: "tick_input \<Rightarrow> state \<Rightarrow> state" where
  "loop_rx t s =
     (let s1 = emit (Radio Available) s
      in if available_result t then
           (let s2 = emit (Radio (Read SIZE))
                       (s1\<lparr>buffer := radio_read SIZE (read_payload t) (buffer s1)\<rparr>);
                s3 = emit (Printf (Received (c_string (buffer s2)))) s2
            in s3\<lparr>counter := counter s3 + 1\<rparr>)
         else s1)"

subsection \<open>loop: the command from the console\<close>

text \<open>
  \<open>char input = getchar_timeout_us(500)\<close> cuts the \<open>int\<close> that comes back to 8 bits.
  The comparison with \<open>PICO_ERROR_TIMEOUT\<close> promotes \<open>input\<close> back to \<open>int\<close>, by sign
  extension where \<open>char\<close> is signed. The characters are \<open>'T' = 84\<close>, \<open>'t' = 116\<close>,
  \<open>'R' = 82\<close>, \<open>'r' = 114\<close>.
\<close>

definition loop_input :: "platform \<Rightarrow> tick_input \<Rightarrow> state \<Rightarrow> state" where
  "loop_input p t s =
     (let s1 = emit (GetcharTimeoutUs 500) s;
          input = (word_of_int (getchar_result t) :: byte)
      in if (if char_signed p then sint input else uint input) \<noteq> PICO_ERROR_TIMEOUT p then
           (if (input = 84 \<or> input = 116) \<and> \<not> role s1 then
              emit (Radio StopListening)
                (emit (Printf ChangingToTransmit) (s1\<lparr>role := True, counter := 0\<rparr>))
            else if (input = 82 \<or> input = 114) \<and> role s1 then
              emit (Radio StartListening)
                (emit (Printf ChangingToReceive) (s1\<lparr>role := False\<rparr>))
            else s1)
         else s1)"

subsection \<open>loop, setup and main\<close>

definition loop :: "platform \<Rightarrow> tick_input \<Rightarrow> state \<Rightarrow> state" where
  "loop p t s = loop_input p t (if role s then loop_tx t s else loop_rx t s)"

text \<open>
  The events of \<open>while (!tud_cdc_connected()) sleep_ms(10)\<close> when the answer is no
  \<open>n\<close> times and then yes.
\<close>

fun cdc_wait_events :: "nat \<Rightarrow> event list" where
  "cdc_wait_events 0 = [TudCdcConnected]"
| "cdc_wait_events (Suc n) = TudCdcConnected # SleepMs 10 # cdc_wait_events n"

text \<open>
  The source's \<open>setup\<close>, here \<open>setup_fn\<close>. It is \<open>None\<close> when \<open>setup\<close> never returns
  (the serial port is never connected), and otherwise its result with the state it
  leaves. \<open>address[0] = "1Node"\<close>, \<open>address[1] = "2Node"\<close>;
  \<open>radioNumber = input == 49\<close>.
\<close>

definition setup_fn :: "boot_input \<Rightarrow> state \<Rightarrow> (bool \<times> state) option" where
  "setup_fn b s =
     (let s1 = s\<lparr>buffer := (buffer s)[SIZE := 0]\<rparr>
      in case cdc_wait b of
           None \<Rightarrow> None
         | Some n \<Rightarrow>
             (let s2 = emit (Radio Begin) (s1\<lparr>trace := trace s1 @ cdc_wait_events n\<rparr>)
              in if \<not> begin_result b then Some (False, emit (Printf NotResponding) s2)
                 else
                   (let s3 = emit Getchar (emit (Printf WhichRadio) (emit (Printf Intro) s2));
                        radioNumber = ((word_of_int (getchar_setup b) :: byte) = 49);
                        s4 = emit (Printf (RadioNumber radioNumber)) s3;
                        s5 = emit (Radio (SetPayloadSize SIZE)) (emit (Radio SetPALevel) s4);
                        s6 = emit (Radio (OpenWritingPipe (if radioNumber then ''2Node'' else ''1Node''))) s5;
                        s7 = emit (Radio (OpenReadingPipe 1 (if \<not> radioNumber then ''2Node'' else ''1Node''))) s6;
                        s8 = (if role s7 then emit (Radio StopListening) s7
                              else emit (Radio StartListening) s7);
                        s9 = emit (Printf PressT) (emit (Radio PrintPrettyDetails) s8)
                    in Some (True, s9))))"

text \<open>
  \<open>main\<close> does not return once \<open>setup\<close> has succeeded: \<open>while (setup_ok) loop()\<close> runs
  for ever. The model takes the inputs of the first ticks, as many as the list has, and
  says where the program is after them.
\<close>

datatype outcome =
    Returned int state
  | Running state
  | Waiting_for_serial

definition run_ticks :: "platform \<Rightarrow> tick_input list \<Rightarrow> state \<Rightarrow> state" where
  "run_ticks p ts s = foldl (\<lambda>s t. loop p t s) s ts"

definition main :: "platform \<Rightarrow> boot_input \<Rightarrow> tick_input list \<Rightarrow> state \<Rightarrow> outcome" where
  "main p b ts s =
     (case setup_fn b (emit StdioInitAll s) of
        None \<Rightarrow> Waiting_for_serial
      | Some (setup_ok, s') \<Rightarrow>
          if setup_ok then Running (run_ticks p ts s')
          else Returned (if setup_ok then 1 else 0) s')"

subsection \<open>The pattern of the payload, in the words of the specification\<close>

text \<open>
  With \<open>mid = (n - 1) / 2\<close> and \<open>d = |mid - i|\<close>, offset \<open>j\<close> is outside the band
  \<open>[mid - d, mid + d)\<close> when \<open>j \<ge> mid + d\<close> or \<open>j < mid - d\<close>.
\<close>

definition outside_band :: "nat \<Rightarrow> nat \<Rightarrow> nat \<Rightarrow> bool" where
  "outside_band n i j =
     (let mid = (int n - 1) div 2;
          d = \<bar>mid - int i\<bar>
      in mid + d \<le> int j \<or> int j < mid - d)"

text \<open>The byte as \<open>(high | low) + '0'\<close>.\<close>

definition band_digit :: "nat \<Rightarrow> nat \<Rightarrow> nat \<Rightarrow> byte" where
  "band_digit n i j =
     (let mid = (int n - 1) div 2;
          d = \<bar>mid - int i\<bar>;
          high = (mid + d \<le> int j);
          low = (int j < mid - d)
      in (bool_to_char high OR bool_to_char low) + 48)"

subsection \<open>Reading the trace\<close>

text \<open>The events that the transmitting branch of \<open>loop\<close> can add to the trace.\<close>

fun is_tx_event :: "event \<Rightarrow> bool" where
  "is_tx_event (Radio FlushTx) = True"
| "is_tx_event (Radio (WriteFast _)) = True"
| "is_tx_event (Radio ReUseTX) = True"
| "is_tx_event ToUsSinceBoot = True"
| "is_tx_event (Printf (TooManyFailures _)) = True"
| "is_tx_event (Printf (TimeToTransmit _)) = True"
| "is_tx_event (SleepMs n) = (n = 500)"
| "is_tx_event _ = False"

text \<open>The events that the receiving branch can add.\<close>

fun is_rx_event :: "event \<Rightarrow> bool" where
  "is_rx_event (Radio Available) = True"
| "is_rx_event (Radio (Read _)) = True"
| "is_rx_event (Printf (Received _)) = True"
| "is_rx_event _ = False"

text \<open>The events of sampling the command and of switching the role.\<close>

fun is_command_event :: "event \<Rightarrow> bool" where
  "is_command_event (GetcharTimeoutUs _) = True"
| "is_command_event (Printf ChangingToTransmit) = True"
| "is_command_event (Printf ChangingToReceive) = True"
| "is_command_event (Radio StopListening) = True"
| "is_command_event (Radio StartListening) = True"
| "is_command_event _ = False"

text \<open>The two calls that change whether the radio listens.\<close>

fun is_listening_call :: "event \<Rightarrow> bool" where
  "is_listening_call (Radio StopListening) = True"
| "is_listening_call (Radio StartListening) = True"
| "is_listening_call _ = False"

text \<open>The strings that the receiving branch has printed, oldest first.\<close>

fun printed_payloads :: "event list \<Rightarrow> byte list list" where
  "printed_payloads [] = []"
| "printed_payloads (Printf (Received x) # es) = x # printed_payloads es"
| "printed_payloads (_ # es) = printed_payloads es"

text \<open>\<open>buffer\<close> has its \<open>SIZE + 1\<close> bytes and the last of them is 0.\<close>

definition terminated :: "byte list \<Rightarrow> bool" where
  "terminated buf = (length buf = SIZE + 1 \<and> buf ! SIZE = 0)"

text \<open>The command sampled in the tick is \<open>'T'\<close> or \<open>'t'\<close>, as \<open>loop_input\<close> tests it.\<close>

definition requests_transmit :: "platform \<Rightarrow> tick_input \<Rightarrow> bool" where
  "requests_transmit p t =
     (let input = (word_of_int (getchar_result t) :: byte)
      in (if char_signed p then sint input else uint input) \<noteq> PICO_ERROR_TIMEOUT p
         \<and> (input = 84 \<or> input = 116))"

text \<open>The command sampled in the tick is \<open>'R'\<close> or \<open>'r'\<close>.\<close>

definition requests_receive :: "platform \<Rightarrow> tick_input \<Rightarrow> bool" where
  "requests_receive p t =
     (let input = (word_of_int (getchar_result t) :: byte)
      in (if char_signed p then sint input else uint input) \<noteq> PICO_ERROR_TIMEOUT p
         \<and> (input = 82 \<or> input = 114))"

text \<open>
  A tick in the order that the specification gives: the command is sampled and the role
  updated first, the work of the role comes after.
\<close>

definition loop_command_first :: "platform \<Rightarrow> tick_input \<Rightarrow> state \<Rightarrow> state" where
  "loop_command_first p t s =
     (let s1 = loop_input p t s in if role s1 then loop_tx t s1 else loop_rx t s1)"

subsection \<open>Concrete inputs\<close>

text \<open>An ARM board (\<open>char\<close> unsigned) with the SDK's \<open>PICO_ERROR_TIMEOUT = -1\<close>.\<close>

definition pico :: platform where
  "pico = \<lparr>char_signed = False, PICO_ERROR_TIMEOUT = - 1\<rparr>"

text \<open>A tick in which nothing arrives: no payload and no character.\<close>

definition tick_idle :: tick_input where
  "tick_idle = \<lparr>writeFast_results = (\<lambda>_. True), available_result = False,
                 read_payload = (\<lambda>_. 0), getchar_result = - 1\<rparr>"

text \<open>A tick in which the character \<open>c\<close> arrives, and no payload.\<close>

definition tick_char :: "int \<Rightarrow> tick_input" where
  "tick_char c = tick_idle\<lparr>getchar_result := c\<rparr>"

text \<open>A tick in which a payload arrives whose bytes are given by \<open>f\<close>, and no character.\<close>

definition tick_payload :: "(nat \<Rightarrow> byte) \<Rightarrow> tick_input" where
  "tick_payload f = tick_idle\<lparr>available_result := True, read_payload := f\<rparr>"

text \<open>Milliseconds in the unit of \<open>getchar_timeout_us\<close>, microseconds.\<close>

definition ms_to_us :: "nat \<Rightarrow> nat" where
  "ms_to_us n = 1000 * n"

text \<open>A start in which the radio does not answer.\<close>

definition boot_dead :: boot_input where
  "boot_dead = \<lparr>cdc_wait = Some 1, begin_result = False, getchar_setup = 48\<rparr>"

section \<open>Properties of makePayload\<close>

lemma makePayload_loop_step:
  "uint j < int SIZE - 1 \<Longrightarrow>
   makePayload_loop i j b = makePayload_loop i (j + 1) (b[unat j + 1 := payload_chr i j + 48])"
  by (subst makePayload_loop.simps) simp

lemma makePayload_loop_stop:
  "\<not> uint j < int SIZE - 1 \<Longrightarrow> makePayload_loop i j b = b"
  by (subst makePayload_loop.simps) simp

lemma length_makePayload_loop: "length (makePayload_loop i j b) = length b"
proof (induction i j b rule: makePayload_loop.induct)
  case (1 i j b)
  show ?case
  proof (cases "uint j < int SIZE - 1")
    case True
    with 1 show ?thesis by (simp add: makePayload_loop_step)
  next
    case False
    then show ?thesis by (simp add: makePayload_loop_stop)
  qed
qed

text \<open>
  The loop started at \<open>j\<close> writes the indices from \<open>j + 1\<close> to \<open>SIZE - 1\<close> and leaves
  every other index alone.
\<close>

lemma makePayload_loop_nth:
  "makePayload_loop i j b ! k =
     (if unat j < k \<and> k < SIZE \<and> k < length b then payload_chr i (of_nat (k - 1)) + 48 else b ! k)"
proof (induction i j b rule: makePayload_loop.induct)
  case (1 i j b)
  show ?case
  proof (cases "uint j < int SIZE - 1")
    case True
    then have uj: "unat j < 31" unfolding SIZE_def uint_nat by linarith
    then have suc: "unat (j + 1) = unat j + 1" by (simp add: unat_word_ariths)
    note IH = "1.IH"[OF True]
    show ?thesis
    proof (cases "k = unat j + 1")
      case k: True
      then have "of_nat (k - 1) = j" by simp
      with k uj show ?thesis
        unfolding makePayload_loop_step[OF True] IH suc
        by (simp add: SIZE_def list_update_beyond)
    next
      case False
      then show ?thesis
        unfolding makePayload_loop_step[OF True] IH suc
        by auto
    qed
  next
    case False
    then have "unat j \<ge> SIZE - 1" unfolding SIZE_def uint_nat by linarith
    with False show ?thesis
      by (auto simp: makePayload_loop_stop SIZE_def)
  qed
qed

lemma length_makePayload: "length (makePayload i b) = length b"
  by (simp add: makePayload_def length_makePayload_loop)

lemma makePayload_nth:
  "makePayload i b ! k =
     (if k < length b then
        (if k = 0 then word_of_int (uint i + (if uint i < 26 then 65 else 71))
         else if k < SIZE then payload_chr i (of_nat (k - 1)) + 48 else b ! k)
      else b ! k)"
  by (auto simp: makePayload_def makePayload_loop_nth SIZE_def)

lemma bool_to_char_OR: "bool_to_char a OR bool_to_char b = bool_to_char (a \<or> b)"
  by (cases a; cases b) simp_all

lemma payload_chr_band:
  assumes "j < 256"
  shows "payload_chr i (of_nat j) + 48 = band_digit SIZE (unat i) j"
proof -
  from assms have "uint (of_nat j :: byte) = int j"
    unfolding uint_nat by (simp add: unat_of_nat)
  then show ?thesis
    by (simp add: payload_chr_def band_digit_def Let_def)
qed

lemma band_digit_outside:
  "band_digit n i j = (if outside_band n i j then 49 else 48)"
  by (simp add: band_digit_def outside_band_def Let_def bool_to_char_OR)

text \<open>
  C1. For every stream position \<open>i\<close> below \<open>SIZE\<close> and every offset \<open>j\<close> below
  \<open>SIZE - 1\<close>, the byte that makePayload leaves at index \<open>j + 1\<close> is
  \<open>(high | low) + '0'\<close> with \<open>high = (j \<ge> mid + d)\<close>, \<open>low = (j < mid - d)\<close>,
  \<open>mid = (SIZE - 1) / 2\<close> and \<open>d = |mid - i|\<close>: the character \<open>'1'\<close> (49) outside the band
  \<open>[mid - d, mid + d)\<close> and \<open>'0'\<close> (48) inside it.
\<close>

theorem C1_payload_digit:
  assumes "length buf = SIZE + 1" and "unat i < SIZE" and "j < SIZE - 1"
  shows "makePayload i buf ! (j + 1) = band_digit SIZE (unat i) j
       \<and> makePayload i buf ! (j + 1) = (if outside_band SIZE (unat i) j then 49 else 48)"
proof -
  from assms(3) have "j < 256" by (simp add: SIZE_def)
  moreover from assms(3) have "j + 1 < SIZE" by simp
  ultimately have "makePayload i buf ! (j + 1) = band_digit SIZE (unat i) j"
    using payload_chr_band[of j i] assms(1) by (simp add: makePayload_nth)
  then show ?thesis by (simp add: band_digit_outside)
qed

theorem C1_payload_digit_witness:
  "length (replicate 33 (0 :: byte)) = SIZE + 1 \<and> unat (3 :: byte) < SIZE
   \<and> (2 :: nat) < SIZE - 1 \<and> (10 :: nat) < SIZE - 1
   \<and> makePayload 3 (replicate 33 0) ! (2 + 1) = 49
   \<and> makePayload 3 (replicate 33 0) ! (10 + 1) = 48"
  using C1_payload_digit[of "replicate 33 0" 3 2] C1_payload_digit[of "replicate 33 0" 3 10]
  by (auto simp: SIZE_def outside_band_def)

lemma marker_unat:
  assumes "unat (i :: byte) < 32"
  shows "unat (word_of_int (uint i + (if uint i < 26 then 65 else 71)) :: byte)
         = (if unat i < 26 then 65 + unat i else 71 + unat i)"
proof -
  have eq: "(uint i < 26) = (unat i < 26)" unfolding uint_nat by presburger
  have a: "unat (i + 65) = unat i + 65" using assms by (simp add: unat_word_ariths)
  have b: "unat (i + 71) = unat i + 71" using assms by (simp add: unat_word_ariths)
  show ?thesis unfolding eq using a b by (simp add: add.commute)
qed

text \<open>
  C3. For every \<open>i\<close> below \<open>SIZE\<close> (which is 32), byte 0 of the payload is \<open>'A' + i\<close>
  (65 + i) when \<open>i < 26\<close> and \<open>'G' + i\<close> (71 + i) otherwise, without wrap-around, and two
  positions below \<open>SIZE\<close> with the same byte 0 are the same position.
\<close>

theorem C3_marker_byte:
  assumes "length buf = SIZE + 1" and "length buf' = SIZE + 1"
    and "unat i < SIZE" and "unat i' < SIZE"
  shows "unat (makePayload i buf ! 0) = (if unat i < 26 then 65 + unat i else 71 + unat i)
       \<and> (makePayload i buf ! 0 = makePayload i' buf' ! 0 \<longrightarrow> i = i')"
proof -
  have m: "unat (makePayload x b ! 0) = (if unat x < 26 then 65 + unat x else 71 + unat x)"
    if "length b = SIZE + 1" "unat x < SIZE" for x b
    using that marker_unat[of x] by (simp add: makePayload_nth SIZE_def)
  have "i = i'" if "makePayload i buf ! 0 = makePayload i' buf' ! 0"
  proof -
    from that have "unat (makePayload i buf ! 0) = unat (makePayload i' buf' ! 0)" by simp
    then have "(if unat i < 26 then 65 + unat i else 71 + unat i)
             = (if unat i' < 26 then 65 + unat i' else 71 + unat i')"
      using m[OF assms(1,3)] m[OF assms(2,4)] by simp
    then have "unat i = unat i'"
      using assms(3,4) by (simp add: SIZE_def split: if_splits)
    then show ?thesis by (rule word_unat_eq_iff[THEN iffD2])
  qed
  with m[OF assms(1,3)] show ?thesis by blast
qed

theorem C3_marker_byte_witness:
  "length (replicate 33 (0 :: byte)) = SIZE + 1 \<and> unat (31 :: byte) < SIZE \<and> unat (5 :: byte) < SIZE
   \<and> unat (makePayload 31 (replicate 33 0) ! 0) = 102
   \<and> makePayload 31 (replicate 33 0) ! 0 \<noteq> makePayload 5 (replicate 33 0) ! 0"
  using C3_marker_byte[of "replicate 33 0" "replicate 33 0" 31 5]
  by (auto simp: SIZE_def)

section \<open>Properties of the send loop\<close>

lemma tx_loop_done:
  "\<not> uint i < int SIZE \<Longrightarrow> tx_loop r k i f s = (i, f, k, s)"
  by (subst tx_loop.simps) simp

lemma tx_loop_pass:
  "uint i < int SIZE \<Longrightarrow>
   tx_attempt (r k) i f (s\<lparr>buffer := makePayload i (buffer s)\<rparr>) = (i', f', s') \<Longrightarrow>
   tx_loop r k i f s =
     (if 100 \<le> uint f'
      then (i', f', Suc k, emit (Printf (TooManyFailures (buffer s' ! 0))) s')
      else tx_loop r (Suc k) i' f' s')"
  by (subst tx_loop.simps) simp

lemma tx_attempt_counts:
  "tx_attempt ok i f s = (i', f', s') \<Longrightarrow>
   (ok \<and> i' = i + 1 \<and> f' = f) \<or> (\<not> ok \<and> i' = i \<and> f' = f + 1)"
  by (auto simp: tx_attempt_def Let_def split: if_splits)

lemma tx_loop_inv:
  "unat i \<le> SIZE \<Longrightarrow> unat f < 100 \<Longrightarrow> tx_loop r k i f s = (i', f', k', s') \<Longrightarrow>
   k' + unat i + unat f = k + unat i' + unat f'
   \<and> ((unat i' = SIZE \<and> unat f' < 100) \<or> (unat i' < SIZE \<and> unat f' = 100))"
proof (induction r k i f s rule: tx_loop.induct)
  case (1 r k i f s)
  show ?case
  proof (cases "uint i < int SIZE")
    case False
    then have "unat i \<ge> SIZE" unfolding uint_nat by linarith
    with False 1(2,3,4) show ?thesis by (simp add: tx_loop_done)
  next
    case True
    then have ui: "unat i < 32" unfolding SIZE_def uint_nat by linarith
    then have suc: "unat (i + 1) = unat i + 1" by (simp add: unat_word_ariths)
    from 1(3) have fsuc: "unat (f + 1) = unat f + 1" by (simp add: unat_word_ariths)
    obtain i1 f1 s1 where att:
      "tx_attempt (r k) i f (s\<lparr>buffer := makePayload i (buffer s)\<rparr>) = (i1, f1, s1)"
      by (cases "tx_attempt (r k) i f (s\<lparr>buffer := makePayload i (buffer s)\<rparr>)") auto
    note unf = tx_loop_pass[where r = r and k = k, OF True att]
    from tx_attempt_counts[OF att]
    have c: "(i1 = i + 1 \<and> f1 = f) \<or> (i1 = i \<and> f1 = f + 1)" by blast
    have u100: "(100 \<le> uint f1) = (100 \<le> unat f1)" unfolding uint_nat by presburger
    show ?thesis
    proof (cases "100 \<le> uint f1")
      case stop: True
      with c 1(3) fsuc u100 have "i1 = i" "unat f1 = 100" by auto
      with stop unf 1(4) ui fsuc c 1(3) show ?thesis by (auto simp: SIZE_def)
    next
      case go: False
      then have f1: "unat f1 < 100" using u100 by simp
      from c ui suc have i1: "unat i1 \<le> SIZE" by (auto simp: SIZE_def)
      from unf go 1(4) have "tx_loop r (Suc k) i1 f1 s1 = (i', f', k', s')" by simp
      from "1.IH"[OF True att[symmetric] refl go i1 f1 this] c suc fsuc
      show ?thesis by auto
    qed
  qed
qed

text \<open>
  C2. Whatever the results of \<open>writeFast\<close> are, the send loop of a transmit cycle comes
  to an end (\<open>tx_loop\<close> is a total function) and returns with \<open>k\<close> passes made, where
  every pass has added one either to \<open>i\<close> (when \<open>writeFast\<close> succeeded) or to
  \<open>failures\<close> (when it failed): \<open>k = i + failures\<close>. It ends either with \<open>i = SIZE\<close> and fewer than 100 failures, or with exactly 100 failures
  and \<open>i < SIZE\<close>; so \<open>k\<close> is at most \<open>SIZE + 100\<close>.
\<close>

theorem C2_send_loop_bounded:
  "\<exists>i failures k s'. tx_loop results 0 0 0 s = (i, failures, k, s')
     \<and> k = unat i + unat failures
     \<and> k \<le> SIZE + 100
     \<and> ((unat i = SIZE \<and> unat failures < 100) \<or> (unat i < SIZE \<and> unat failures = 100))
     \<and> (\<exists>s1. tx_attempt True i0 f0 s0 = (i0 + 1, f0, s1))
     \<and> (\<exists>s1. tx_attempt False i0 f0 s0 = (i0, f0 + 1, s1))"
proof -
  obtain i f k s' where r: "tx_loop results 0 0 0 s = (i, f, k, s')"
    by (cases "tx_loop results 0 0 0 s") auto
  have "(\<exists>s1. tx_attempt True i0 f0 s0 = (i0 + 1, f0, s1))
      \<and> (\<exists>s1. tx_attempt False i0 f0 s0 = (i0, f0 + 1, s1))"
    by (simp add: tx_attempt_def Let_def)
  with tx_loop_inv[OF _ _ r] show ?thesis unfolding r by auto
qed


lemma tx_loop_all_fail:
  "\<forall>n. \<not> r n \<Longrightarrow> uint i < int SIZE \<Longrightarrow> unat f < 100 \<Longrightarrow>
   \<exists>k' s'. tx_loop r k i f s = (i, 100, k', s')"
proof (induction r k i f s rule: tx_loop.induct)
  case (1 r k i f s)
  from 1(4) have fsuc: "unat (f + 1) = unat f + 1" by (simp add: unat_word_ariths)
  obtain i1 f1 s1 where att:
    "tx_attempt (r k) i f (s\<lparr>buffer := makePayload i (buffer s)\<rparr>) = (i1, f1, s1)"
    by (cases "tx_attempt (r k) i f (s\<lparr>buffer := makePayload i (buffer s)\<rparr>)") auto
  note unf = tx_loop_pass[where r = r and k = k, OF 1(3) att]
  from tx_attempt_counts[OF att] 1(2) have c: "i1 = i" "f1 = f + 1" by auto
  have u100: "(100 \<le> uint f1) = (100 \<le> unat f1)" unfolding uint_nat by presburger
  show ?case
  proof (cases "100 \<le> uint f1")
    case True
    with u100 c fsuc 1(4) have "unat f1 = unat (100 :: byte)" by simp
    then have "f1 = 100" by (rule word_unat_eq_iff[THEN iffD2])
    with True unf c show ?thesis by simp
  next
    case False
    with u100 have "unat f1 < 100" by simp
    from "1.IH"[OF 1(3) att[symmetric] refl False 1(2) _ this] 1(3) c unf False
    show ?thesis by simp
  qed
qed

theorem C2_send_loop_bounded_witness:
  "\<exists>s'. tx_loop (\<lambda>_. False) 0 0 0 initial_state = (0, 100, 100, s') \<and> unat (0 :: byte) < SIZE"
proof -
  obtain k' s' where r: "tx_loop (\<lambda>_. False) 0 0 0 initial_state = (0, 100, k', s')"
    using tx_loop_all_fail[of "\<lambda>_. False" 0 0 0 initial_state] by (auto simp: SIZE_def)
  from C2_send_loop_bounded[of "\<lambda>_. False" initial_state] r have "k' = 100" by simp
  with r show ?thesis by (simp add: SIZE_def)
qed

lemma trace_emit [simp]: "trace (emit e s) = trace s @ [e]"
  and role_emit [simp]: "role (emit e s) = role s"
  and counter_emit [simp]: "counter (emit e s) = counter s"
  and buffer_emit [simp]: "buffer (emit e s) = buffer s"
  by (simp_all add: emit_def)

lemma tx_attempt_state:
  assumes "tx_attempt ok i f s = (i', f', s')"
  shows "role s' = role s \<and> counter s' = counter s \<and> buffer s' = buffer s
       \<and> (\<exists>es. trace s' = trace s @ es \<and> list_all is_tx_event es)"
  using assms by (auto simp: tx_attempt_def Let_def split: if_splits)

lemma makePayload_beyond: "SIZE \<le> n \<Longrightarrow> makePayload i b ! n = b ! n"
  by (simp add: makePayload_nth SIZE_def)

lemma tx_loop_state:
  "tx_loop r k i f s = (i', f', k', s') \<Longrightarrow>
   role s' = role s \<and> counter s' = counter s \<and> length (buffer s') = length (buffer s)
   \<and> (\<forall>n\<ge>SIZE. buffer s' ! n = buffer s ! n)
   \<and> (\<exists>es. trace s' = trace s @ es \<and> list_all is_tx_event es)"
proof (induction r k i f s rule: tx_loop.induct)
  case (1 r k i f s)
  show ?case
  proof (cases "uint i < int SIZE")
    case False
    with 1(2) show ?thesis by (simp add: tx_loop_done)
  next
    case True
    obtain i1 f1 s1 where att:
      "tx_attempt (r k) i f (s\<lparr>buffer := makePayload i (buffer s)\<rparr>) = (i1, f1, s1)"
      by (cases "tx_attempt (r k) i f (s\<lparr>buffer := makePayload i (buffer s)\<rparr>)") auto
    note unf = tx_loop_pass[where r = r and k = k, OF True att]
    from tx_attempt_state[OF att] obtain es1 where
      s1: "role s1 = role s" "counter s1 = counter s" "buffer s1 = makePayload i (buffer s)"
          "trace s1 = trace s @ es1" "list_all is_tx_event es1"
      by auto
    have buf1: "length (buffer s1) = length (buffer s)" "\<forall>n\<ge>SIZE. buffer s1 ! n = buffer s ! n"
      using s1(3) by (simp_all add: length_makePayload makePayload_beyond)
    show ?thesis
    proof (cases "100 \<le> uint f1")
      case stop: True
      with unf 1(2) have "s' = emit (Printf (TooManyFailures (buffer s1 ! 0))) s1" by simp
      with s1 buf1 show ?thesis by simp
    next
      case go: False
      with unf 1(2) have "tx_loop r (Suc k) i1 f1 s1 = (i', f', k', s')" by simp
      from "1.IH"[OF True att[symmetric] refl go this] obtain es2 where
        s2: "role s' = role s1" "counter s' = counter s1" "length (buffer s') = length (buffer s1)"
            "\<forall>n\<ge>SIZE. buffer s' ! n = buffer s1 ! n"
            "trace s' = trace s1 @ es2" "list_all is_tx_event es2"
        by auto
      have "trace s' = trace s @ (es1 @ es2)" "list_all is_tx_event (es1 @ es2)"
        using s1 s2 by simp_all
      then have "\<exists>es. trace s' = trace s @ es \<and> list_all is_tx_event es" by blast
      with s1 s2 buf1 show ?thesis by simp
    qed
  qed
qed

lemma loop_tx_state:
  "role (loop_tx t s) = role s \<and> counter (loop_tx t s) = counter s
   \<and> length (buffer (loop_tx t s)) = length (buffer s)
   \<and> (\<forall>n\<ge>SIZE. buffer (loop_tx t s) ! n = buffer s ! n)
   \<and> (\<exists>es. trace (loop_tx t s) = trace s @ Radio FlushTx # es \<and> list_all is_tx_event es)"
proof -
  obtain i f k s' where r:
    "tx_loop (writeFast_results t) 0 0 0 (emit ToUsSinceBoot (emit (Radio FlushTx) s)) = (i, f, k, s')"
    by (cases "tx_loop (writeFast_results t) 0 0 0 (emit ToUsSinceBoot (emit (Radio FlushTx) s))") auto
  from tx_loop_state[OF r] obtain es where
    s': "role s' = role s" "counter s' = counter s" "length (buffer s') = length (buffer s)"
        "\<forall>n\<ge>SIZE. buffer s' ! n = buffer s ! n"
        "trace s' = trace s @ [Radio FlushTx, ToUsSinceBoot] @ es" "list_all is_tx_event es"
    by auto
  have l: "loop_tx t s = emit (SleepMs 500) (emit (Printf (TimeToTransmit f)) (emit ToUsSinceBoot s'))"
    by (simp add: loop_tx_def r)
  have "trace (loop_tx t s) = trace s @ Radio FlushTx #
          (ToUsSinceBoot # es @ [ToUsSinceBoot, Printf (TimeToTransmit f), SleepMs 500])"
       "list_all is_tx_event (ToUsSinceBoot # es @ [ToUsSinceBoot, Printf (TimeToTransmit f), SleepMs 500])"
    using s' by (simp_all add: l)
  then have "\<exists>es. trace (loop_tx t s) = trace s @ Radio FlushTx # es \<and> list_all is_tx_event es"
    by blast
  with s' show ?thesis by (simp add: l)
qed

lemma length_radio_read:
  "length b = SIZE + 1 \<Longrightarrow> length (radio_read SIZE f b) = SIZE + 1"
  by (simp add: radio_read_def)

lemma radio_read_nth:
  "length b = SIZE + 1 \<Longrightarrow>
   radio_read SIZE f b ! n = (if n < SIZE then f n else b ! n)"
  by (auto simp: radio_read_def nth_append)

lemma loop_rx_state:
  "role (loop_rx t s) = role s
   \<and> counter (loop_rx t s) = (if available_result t then counter s + 1 else counter s)
   \<and> buffer (loop_rx t s) =
       (if available_result t then radio_read SIZE (read_payload t) (buffer s) else buffer s)
   \<and> trace (loop_rx t s) = trace s @ Radio Available #
       (if available_result t
        then [Radio (Read SIZE), Printf (Received (c_string (radio_read SIZE (read_payload t) (buffer s))))]
        else [])"
  by (simp add: loop_rx_def Let_def)


section \<open>Properties of the role switch\<close>

lemma tx_event_not_listening_call: "is_tx_event e \<Longrightarrow> \<not> is_listening_call e"
  by (cases e rule: is_listening_call.cases) simp_all

lemma rx_event_not_listening_call: "is_rx_event e \<Longrightarrow> \<not> is_listening_call e"
  by (cases e rule: is_listening_call.cases) simp_all

lemma tx_event_no_listening_call:
  "list_all is_tx_event es \<Longrightarrow> list_all (\<lambda>e. \<not> is_listening_call e) es"
  by (induction es) (simp_all add: tx_event_not_listening_call)

lemma rx_event_no_listening_call:
  "list_all is_rx_event es \<Longrightarrow> list_all (\<lambda>e. \<not> is_listening_call e) es"
  by (induction es) (simp_all add: rx_event_not_listening_call)

lemma printed_payloads_append:
  "printed_payloads (es @ es') = printed_payloads es @ printed_payloads es'"
  by (induction es rule: printed_payloads.induct) simp_all

lemma printed_payloads_tx: "list_all is_tx_event es \<Longrightarrow> printed_payloads es = []"
  by (induction es rule: printed_payloads.induct) simp_all

lemma printed_payloads_command: "list_all is_command_event es \<Longrightarrow> printed_payloads es = []"
  by (induction es rule: printed_payloads.induct) simp_all

text \<open>What \<open>loop_input\<close> does, by the command it samples.\<close>

lemma loop_input_cases:
  "loop_input p t s =
     (if requests_transmit p t \<and> \<not> role s then
        s\<lparr>role := True, counter := 0,
          trace := trace s @ [GetcharTimeoutUs 500, Printf ChangingToTransmit, Radio StopListening]\<rparr>
      else if requests_receive p t \<and> role s then
        s\<lparr>role := False,
          trace := trace s @ [GetcharTimeoutUs 500, Printf ChangingToReceive, Radio StartListening]\<rparr>
      else s\<lparr>trace := trace s @ [GetcharTimeoutUs 500]\<rparr>)"
  by (auto simp: loop_input_def requests_transmit_def requests_receive_def Let_def emit_def)

lemma requests_transmit_T:
  "PICO_ERROR_TIMEOUT p < 0 \<Longrightarrow> getchar_result t = 84 \<or> getchar_result t = 116 \<Longrightarrow>
   requests_transmit p t"
  by (auto simp: requests_transmit_def)

lemma requests_receive_R:
  "PICO_ERROR_TIMEOUT p < 0 \<Longrightarrow> getchar_result t = 82 \<or> getchar_result t = 114 \<Longrightarrow>
   requests_receive p t"
  by (auto simp: requests_receive_def)

lemma not_requests_receive_T:
  "getchar_result t = 84 \<or> getchar_result t = 116 \<Longrightarrow> \<not> requests_receive p t"
  by (auto simp: requests_receive_def)

lemma not_requests_transmit_R:
  "getchar_result t = 82 \<or> getchar_result t = 114 \<Longrightarrow> \<not> requests_transmit p t"
  by (auto simp: requests_transmit_def)


lemma role_work_state:
  "role (if role s then loop_tx t s else loop_rx t s) = role s"
  by (simp add: loop_tx_state loop_rx_state)

lemma role_work_no_listening_call:
  "\<exists>es. trace (if role s then loop_tx t s else loop_rx t s) = trace s @ es
        \<and> list_all (\<lambda>e. \<not> is_listening_call e) es"
proof (cases "role s")
  case True
  from loop_tx_state[of t s] obtain es where
    es: "trace (loop_tx t s) = trace s @ Radio FlushTx # es" "list_all is_tx_event es" by blast
  from es(2) have "list_all (\<lambda>e. \<not> is_listening_call e) (Radio FlushTx # es)"
    by (simp add: tx_event_no_listening_call)
  with es(1) True show ?thesis by auto
next
  case False
  then show ?thesis by (simp add: loop_rx_state)
qed

text \<open>
  C6. Whatever \<open>counter\<close> holds, a tick that starts in the receive role and samples
  \<open>'T'\<close> or \<open>'t'\<close> ends in the transmit role with \<open>counter = 0\<close>, and the last thing
  it does is to call \<open>radio.stopListening()\<close>. A tick that starts in the transmit role
  and samples \<open>'R'\<close> or \<open>'r'\<close> ends in the receive role with \<open>counter\<close> as it was, and
  the last thing it does is to call \<open>radio.startListening()\<close>.
\<close>

theorem C6_role_switch:
  assumes "PICO_ERROR_TIMEOUT p < 0"
  shows "(\<not> role s \<and> (getchar_result t = 84 \<or> getchar_result t = 116) \<longrightarrow>
            role (loop p t s) \<and> counter (loop p t s) = 0
            \<and> last (trace (loop p t s)) = Radio StopListening)
       \<and> (role s \<and> (getchar_result t = 82 \<or> getchar_result t = 114) \<longrightarrow>
            \<not> role (loop p t s) \<and> counter (loop p t s) = counter s
            \<and> last (trace (loop p t s)) = Radio StartListening)"
proof (intro conjI impI)
  assume a: "\<not> role s \<and> (getchar_result t = 84 \<or> getchar_result t = 116)"
  then have rq: "requests_transmit p t" using assms by (simp add: requests_transmit_T)
  from a have l: "loop p t s = loop_input p t (loop_rx t s)" by (simp add: loop_def)
  from a have r: "\<not> role (loop_rx t s)" by (simp add: loop_rx_state)
  show "role (loop p t s)" "counter (loop p t s) = 0"
    "last (trace (loop p t s)) = Radio StopListening"
    unfolding l using rq r by (simp_all add: loop_input_cases)
next
  assume a: "role s \<and> (getchar_result t = 82 \<or> getchar_result t = 114)"
  then have rq: "requests_receive p t" "\<not> requests_transmit p t"
    using assms by (simp_all add: requests_receive_R not_requests_transmit_R)
  from a have l: "loop p t s = loop_input p t (loop_tx t s)" by (simp add: loop_def)
  from a have r: "role (loop_tx t s)" "counter (loop_tx t s) = counter s"
    by (simp_all add: loop_tx_state)
  show "\<not> role (loop p t s)" "counter (loop p t s) = counter s"
    "last (trace (loop p t s)) = Radio StartListening"
    unfolding l using rq r by (simp_all add: loop_input_cases)
qed

theorem C6_role_switch_witness:
  "PICO_ERROR_TIMEOUT pico < 0
   \<and> \<not> role (initial_state\<lparr>counter := 7\<rparr>) \<and> getchar_result (tick_char 116) = 116
   \<and> role (loop pico (tick_char 116) (initial_state\<lparr>counter := 7\<rparr>))
   \<and> counter (loop pico (tick_char 116) (initial_state\<lparr>counter := 7\<rparr>)) = 0
   \<and> last (trace (loop pico (tick_char 116) (initial_state\<lparr>counter := 7\<rparr>))) = Radio StopListening
   \<and> role (initial_state\<lparr>role := True, counter := 7\<rparr>) \<and> getchar_result (tick_char 82) = 82
   \<and> \<not> role (loop pico (tick_char 82) (initial_state\<lparr>role := True, counter := 7\<rparr>))
   \<and> counter (loop pico (tick_char 82) (initial_state\<lparr>role := True, counter := 7\<rparr>)) = 7"
  using C6_role_switch[of pico "initial_state\<lparr>counter := 7\<rparr>" "tick_char 116"]
    C6_role_switch[of pico "initial_state\<lparr>role := True, counter := 7\<rparr>" "tick_char 82"]
  by (simp add: pico_def tick_char_def tick_idle_def initial_state_def)

text \<open>
  C7. Asking for the role that is already active does nothing: with \<open>'T'\<close> or \<open>'t'\<close> in
  the transmit role, or \<open>'R'\<close> or \<open>'r'\<close> in the receive role, the handling of the command
  only records that the character was sampled. The role and \<open>counter\<close> are as before and
  no call is made on the radio; the whole tick leaves the role as it was and makes no
  call that changes whether the radio listens.
\<close>

theorem C7_same_role_is_noop:
  assumes "(role s \<and> (getchar_result t = 84 \<or> getchar_result t = 116))
         \<or> (\<not> role s \<and> (getchar_result t = 82 \<or> getchar_result t = 114))"
  shows "loop_input p t s = emit (GetcharTimeoutUs 500) s
       \<and> role (loop_input p t s) = role s
       \<and> counter (loop_input p t s) = counter s
       \<and> trace (loop_input p t s) = trace s @ [GetcharTimeoutUs 500]
       \<and> role (loop p t s) = role s
       \<and> (\<exists>es. trace (loop p t s) = trace s @ es \<and> list_all (\<lambda>e. \<not> is_listening_call e) es)"
proof -
  have n: "\<not> (requests_transmit p t \<and> \<not> role s')" "\<not> (requests_receive p t \<and> role s')"
    if "role s' = role s" for s'
    using assms that not_requests_receive_T[of t p] not_requests_transmit_R[of t p] by auto
  have a: "loop_input p t s' = emit (GetcharTimeoutUs 500) s'" if "role s' = role s" for s'
    using n[OF that] by (auto simp: loop_input_cases emit_def)
  have b: "loop p t s = emit (GetcharTimeoutUs 500) (if role s then loop_tx t s else loop_rx t s)"
    unfolding loop_def by (rule a) (rule role_work_state)
  from role_work_no_listening_call[of s t] obtain es where
    es: "trace (if role s then loop_tx t s else loop_rx t s) = trace s @ es"
        "list_all (\<lambda>e. \<not> is_listening_call e) es" by blast
  then have "trace (loop p t s) = trace s @ (es @ [GetcharTimeoutUs 500])
      \<and> list_all (\<lambda>e. \<not> is_listening_call e) (es @ [GetcharTimeoutUs 500])"
    unfolding b by simp
  then have "\<exists>es. trace (loop p t s) = trace s @ es \<and> list_all (\<lambda>e. \<not> is_listening_call e) es"
    by blast
  moreover have "role (loop p t s) = role s"
    unfolding b using role_work_state[of s t] by simp
  ultimately show ?thesis unfolding a[OF refl] by simp
qed

theorem C7_same_role_is_noop_witness:
  "role (initial_state\<lparr>role := True, counter := 7\<rparr>) \<and> getchar_result (tick_char 84) = 84
   \<and> loop_input pico (tick_char 84) (initial_state\<lparr>role := True, counter := 7\<rparr>)
       = emit (GetcharTimeoutUs 500) (initial_state\<lparr>role := True, counter := 7\<rparr>)
   \<and> \<not> role (initial_state\<lparr>counter := 7\<rparr>) \<and> getchar_result (tick_char 114) = 114
   \<and> loop_input pico (tick_char 114) (initial_state\<lparr>counter := 7\<rparr>)
       = emit (GetcharTimeoutUs 500) (initial_state\<lparr>counter := 7\<rparr>)"
  using C7_same_role_is_noop[of "initial_state\<lparr>role := True, counter := 7\<rparr>" "tick_char 84" pico]
    C7_same_role_is_noop[of "initial_state\<lparr>counter := 7\<rparr>" "tick_char 114" pico]
  by (simp add: tick_char_def tick_idle_def initial_state_def)


section \<open>Properties of the receipt counter\<close>

lemma loop_receive_tick:
  assumes "\<not> role s" and "available_result t" and "\<not> requests_transmit p t"
  shows "\<not> role (loop p t s) \<and> counter (loop p t s) = counter s + 1"
proof -
  from assms(1) have l: "loop p t s = loop_input p t (loop_rx t s)" by (simp add: loop_def)
  from assms(1) have r: "\<not> role (loop_rx t s)" by (simp add: loop_rx_state)
  show ?thesis unfolding l using r assms(2,3) by (simp add: loop_input_cases loop_rx_state)
qed

lemma run_ticks_Cons: "run_ticks p (t # ts) s = run_ticks p ts (loop p t s)"
  by (simp add: run_ticks_def)

lemma run_ticks_receive:
  "\<not> role s \<Longrightarrow> \<forall>t\<in>set ts. available_result t \<and> \<not> requests_transmit p t \<Longrightarrow>
   \<not> role (run_ticks p ts s) \<and> counter (run_ticks p ts s) = counter s + of_nat (length ts)"
proof (induction ts arbitrary: s)
  case Nil
  then show ?case by (simp add: run_ticks_def)
next
  case (Cons t ts)
  from Cons.prems have t: "available_result t" "\<not> requests_transmit p t" by simp_all
  from loop_receive_tick[OF Cons.prems(1) t]
  have s1: "\<not> role (loop p t s)" "counter (loop p t s) = counter s + 1" by simp_all
  from Cons.IH[OF s1(1)] Cons.prems(2) s1(2) show ?case
    by (simp add: run_ticks_Cons)
qed

text \<open>
  C10. \<open>counter\<close> is a \<open>uint8_t\<close>. Over consecutive ticks in the receive role in which
  a payload is received and no \<open>'T'\<close> or \<open>'t'\<close> is sampled, it goes up by one per tick
  modulo 256: after 256 such ticks it is back where it was, so from 0 it is 0 again.
\<close>

theorem C10_counter_wraps:
  assumes "\<not> role s"
    and "\<forall>t\<in>set ts. available_result t \<and> \<not> requests_transmit p t"
  shows "unat (counter (run_ticks p ts s)) = (unat (counter s) + length ts) mod 256
       \<and> (length ts = 256 \<longrightarrow> counter (run_ticks p ts s) = counter s)"
proof -
  from run_ticks_receive[OF assms]
  have c: "counter (run_ticks p ts s) = counter s + of_nat (length ts)" by simp
  have "unat (counter s + of_nat (length ts)) = (unat (counter s) + length ts) mod 256"
    by (simp add: unat_word_ariths unat_of_nat mod_add_right_eq)
  moreover have "counter s + of_nat (length ts) = counter s" if "length ts = 256"
    using that by simp
  ultimately show ?thesis unfolding c by simp
qed

theorem C10_counter_wraps_witness:
  "\<not> role initial_state
   \<and> available_result (tick_payload (\<lambda>_. 65)) \<and> \<not> requests_transmit pico (tick_payload (\<lambda>_. 65))
   \<and> length (replicate 256 (tick_payload (\<lambda>_. 65))) = 256
   \<and> unat (counter (run_ticks pico (replicate 255 (tick_payload (\<lambda>_. 65))) initial_state)) = 255
   \<and> counter (run_ticks pico (replicate 256 (tick_payload (\<lambda>_. 65))) initial_state) = 0"
proof -
  have h: "\<not> role initial_state" by (simp add: initial_state_def)
  have t: "available_result (tick_payload (\<lambda>_. 65)) \<and> \<not> requests_transmit pico (tick_payload (\<lambda>_. 65))"
    by (simp add: tick_payload_def tick_idle_def requests_transmit_def pico_def)
  then have a: "\<forall>t\<in>set (replicate n (tick_payload (\<lambda>_. 65))). available_result t \<and> \<not> requests_transmit pico t" for n
    by simp
  from C10_counter_wraps[OF h a[of 256]] C10_counter_wraps[OF h a[of 255]] h t
  show ?thesis by (simp add: initial_state_def)
qed

section \<open>Properties of the command sampler\<close>

text \<open>
  C5. The sampler is \<open>getchar_timeout_us(500)\<close>, whose argument is in microseconds: in
  a tick in which nothing arrives, the wait it asks for is 500 microseconds, and no wait
  of 500 milliseconds (500000 microseconds) is asked for.
\<close>

theorem C5_sampler_waits_500_microseconds:
  "trace (loop pico tick_idle initial_state) = [Radio Available, GetcharTimeoutUs 500]
   \<and> GetcharTimeoutUs (ms_to_us 500) \<notin> set (trace (loop pico tick_idle initial_state))"
  by (simp add: loop_def loop_rx_def loop_input_def Let_def initial_state_def tick_idle_def pico_def
      ms_to_us_def)

text \<open>
  The other half of that claim holds: a character that is no request, and a timeout,
  leave the state as it is.
\<close>

lemma loop_input_other_character:
  assumes "\<not> requests_transmit p t" and "\<not> requests_receive p t"
  shows "loop_input p t s = emit (GetcharTimeoutUs 500) s"
  using assms by (simp add: loop_input_cases emit_def)

lemma timeout_is_no_request:
  assumes "getchar_result t = PICO_ERROR_TIMEOUT p" and "- 128 \<le> PICO_ERROR_TIMEOUT p" and "PICO_ERROR_TIMEOUT p < 0"
  shows "\<not> requests_transmit p t \<and> \<not> requests_receive p t"
proof -
  have "x mod 256 = x + 256" if "- 128 \<le> x" "x < 0" for x :: int
    using that by presburger
  then have "uint (word_of_int (PICO_ERROR_TIMEOUT p) :: byte) = PICO_ERROR_TIMEOUT p + 256"
    using assms(2,3) by (simp add: uint_word_of_int take_bit_eq_mod)
  then have "(word_of_int (PICO_ERROR_TIMEOUT p) :: byte) \<noteq> 84"
    "(word_of_int (PICO_ERROR_TIMEOUT p) :: byte) \<noteq> 116"
    "(word_of_int (PICO_ERROR_TIMEOUT p) :: byte) \<noteq> 82"
    "(word_of_int (PICO_ERROR_TIMEOUT p) :: byte) \<noteq> 114"
    using assms(2,3) by auto
  then show ?thesis using assms(1) by (simp add: requests_transmit_def requests_receive_def)
qed

section \<open>Properties of the start\<close>

text \<open>
  C8. When \<open>radio.begin()\<close> fails, \<open>main\<close> returns 0 after printing that the radio does
  not respond, whatever the inputs of later ticks would have been: the run is the same as
  with no tick at all, and none of its events is one of \<open>loop\<close> (no transmit work, no
  receive work, no sampling of a command).
\<close>

theorem C8_dead_radio_never_ticks:
  assumes "cdc_wait b = Some n" and "\<not> begin_result b"
  shows "main p b ts s =
           Returned 0 (s\<lparr>buffer := (buffer s)[SIZE := 0],
                         trace := trace s @ StdioInitAll # cdc_wait_events n
                                    @ [Radio Begin, Printf NotResponding]\<rparr>)
       \<and> main p b ts s = main p b [] s
       \<and> list_all (\<lambda>e. \<not> is_tx_event e \<and> \<not> is_rx_event e \<and> \<not> is_command_event e)
           (StdioInitAll # cdc_wait_events n @ [Radio Begin, Printf NotResponding])"
proof -
  have "list_all (\<lambda>e. \<not> is_tx_event e \<and> \<not> is_rx_event e \<and> \<not> is_command_event e) (cdc_wait_events m)" for m
    by (induction m) simp_all
  then show ?thesis using assms
    by (simp add: main_def setup_fn_def Let_def emit_def)
qed

theorem C8_dead_radio_never_ticks_witness:
  "cdc_wait boot_dead = Some 1 \<and> \<not> begin_result boot_dead
   \<and> main pico boot_dead [tick_char 84, tick_payload (\<lambda>_. 65)] initial_state =
       Returned 0 (initial_state\<lparr>buffer := (replicate 33 0)[32 := 0],
                                  trace := [StdioInitAll, TudCdcConnected, SleepMs 10, TudCdcConnected,
                                           Radio Begin, Printf NotResponding]\<rparr>)"
  using C8_dead_radio_never_ticks[of boot_dead 1 pico "[tick_char 84, tick_payload (\<lambda>_. 65)]" initial_state]
  by (simp add: boot_dead_def initial_state_def SIZE_def)


section \<open>The order of a tick\<close>

text \<open>
  C4, as the specification has it, fails. In a tick that starts in the receive role and
  samples \<open>'T'\<close>, the radio is polled for a payload before the character is sampled,
  and although the tick ends in the transmit role nothing is transmitted in it; a tick
  that sampled the command first would start with the sampling.
\<close>

theorem C4_counterexample:
  "trace (loop pico (tick_char 84) initial_state)
     = [Radio Available, GetcharTimeoutUs 500, Printf ChangingToTransmit, Radio StopListening]
   \<and> role (loop pico (tick_char 84) initial_state)
   \<and> loop pico (tick_char 84) initial_state \<noteq> loop_command_first pico (tick_char 84) initial_state"
proof -
  have a: "trace (loop pico (tick_char 84) initial_state)
     = [Radio Available, GetcharTimeoutUs 500, Printf ChangingToTransmit, Radio StopListening]"
    "role (loop pico (tick_char 84) initial_state)"
    by (simp_all add: loop_def loop_rx_def loop_input_def Let_def initial_state_def tick_char_def
        tick_idle_def pico_def)
  let ?s1 = "loop_input pico (tick_char 84) initial_state"
  have s1: "role ?s1" "trace ?s1 = [GetcharTimeoutUs 500, Printf ChangingToTransmit, Radio StopListening]"
    by (simp_all add: loop_input_def Let_def initial_state_def tick_char_def tick_idle_def pico_def)
  from loop_tx_state[of "tick_char 84" ?s1] obtain es where
    "trace (loop_tx (tick_char 84) ?s1) = trace ?s1 @ Radio FlushTx # es" by blast
  with s1 have "hd (trace (loop_command_first pico (tick_char 84) initial_state)) = GetcharTimeoutUs 500"
    by (simp add: loop_command_first_def Let_def)
  moreover from a have "hd (trace (loop pico (tick_char 84) initial_state)) = Radio Available"
    by simp
  ultimately have "loop pico (tick_char 84) initial_state \<noteq> loop_command_first pico (tick_char 84) initial_state"
    by auto
  with a show ?thesis by simp
qed

text \<open>
  C4, amended. In every tick the work of the role comes first, and it is the work of the
  role that the tick starts with: the events of a tick are a non-empty run of events of
  the transmitting branch (when the tick starts in the transmit role) or of the receiving
  branch (otherwise), then the sampling of the command, then nothing but events of the
  role switch. A command therefore takes effect from the work of the next tick on.
\<close>

theorem C4_role_work_precedes_command:
  "\<exists>work cmd. trace (loop p t s) = trace s @ work @ GetcharTimeoutUs 500 # cmd
     \<and> work \<noteq> [] \<and> list_all (if role s then is_tx_event else is_rx_event) work
     \<and> list_all is_command_event cmd"
proof -
  let ?w = "if role s then loop_tx t s else loop_rx t s"
  have "\<exists>work. trace ?w = trace s @ work \<and> work \<noteq> []
          \<and> list_all (if role s then is_tx_event else is_rx_event) work"
  proof (cases "role s")
    case True
    from loop_tx_state[of t s] obtain es where
      "trace (loop_tx t s) = trace s @ Radio FlushTx # es" "list_all is_tx_event es" by blast
    then have "trace (loop_tx t s) = trace s @ (Radio FlushTx # es)
        \<and> Radio FlushTx # es \<noteq> [] \<and> list_all is_tx_event (Radio FlushTx # es)"
      by simp
    with True show ?thesis by auto
  next
    case False
    then show ?thesis by (simp add: loop_rx_state)
  qed
  then obtain work where w: "trace ?w = trace s @ work" "work \<noteq> []"
    "list_all (if role s then is_tx_event else is_rx_event) work" by blast
  have "\<exists>cmd. trace (loop_input p t ?w) = trace ?w @ GetcharTimeoutUs 500 # cmd
          \<and> list_all is_command_event cmd"
    by (simp add: loop_input_cases)
  then obtain cmd where c: "trace (loop p t s) = trace ?w @ GetcharTimeoutUs 500 # cmd"
    "list_all is_command_event cmd"
    unfolding loop_def by blast
  from w c have "trace (loop p t s) = trace s @ work @ GetcharTimeoutUs 500 # cmd" by simp
  with w(2,3) c(2) show ?thesis by blast
qed

theorem C4_role_work_precedes_command_witness:
  "\<not> role initial_state \<and> role (initial_state\<lparr>role := True\<rparr>)
   \<and> (\<exists>work cmd. trace (loop pico (tick_char 84) initial_state) = work @ GetcharTimeoutUs 500 # cmd
         \<and> work \<noteq> [] \<and> list_all is_rx_event work \<and> list_all is_command_event cmd)
   \<and> (\<exists>work cmd. trace (loop pico (tick_char 82) (initial_state\<lparr>role := True\<rparr>))
             = work @ GetcharTimeoutUs 500 # cmd
         \<and> work \<noteq> [] \<and> list_all is_tx_event work \<and> list_all is_command_event cmd)"
  using C4_role_work_precedes_command[of pico "tick_char 84" initial_state]
    C4_role_work_precedes_command[of pico "tick_char 82" "initial_state\<lparr>role := True\<rparr>"]
  by (simp add: initial_state_def)


section \<open>The terminator of the buffer\<close>

lemma terminated_makePayload: "terminated b \<Longrightarrow> terminated (makePayload i b)"
  by (simp add: terminated_def length_makePayload makePayload_beyond)

lemma terminated_radio_read: "terminated b \<Longrightarrow> terminated (radio_read SIZE f b)"
  by (simp add: terminated_def length_radio_read radio_read_nth)

lemma terminated_loop:
  assumes "terminated (buffer s)"
  shows "terminated (buffer (loop p t s))"
proof -
  have "buffer (loop_input p t s') = buffer s'" for s'
    by (simp add: loop_input_cases)
  then have b: "buffer (loop p t s) = buffer (if role s then loop_tx t s else loop_rx t s)"
    by (simp add: loop_def)
  show ?thesis
  proof (cases "role s")
    case True
    with assms loop_tx_state[of t s] show ?thesis
      unfolding b by (simp add: terminated_def)
  next
    case False
    with assms terminated_radio_read[of "buffer s" "read_payload t"] show ?thesis
      unfolding b by (simp add: loop_rx_state)
  qed
qed

lemma terminated_setup:
  assumes "length (buffer s) = SIZE + 1" and "setup_fn b s = Some (ok, s')"
  shows "terminated (buffer s')"
  using assms
  by (auto simp: setup_fn_def Let_def emit_def terminated_def split: option.splits if_splits)

lemma c_string_le:
  assumes "terminated b"
  shows "length (c_string b) \<le> SIZE"
proof (rule ccontr)
  assume "\<not> length (c_string b) \<le> SIZE"
  then have l: "SIZE < length (takeWhile (\<lambda>c. c \<noteq> 0) b)" by (simp add: c_string_def)
  then have "takeWhile (\<lambda>c. c \<noteq> 0) b ! SIZE \<in> set (takeWhile (\<lambda>c. c \<noteq> 0) b)"
    by (rule nth_mem)
  then have "takeWhile (\<lambda>c. c \<noteq> 0) b ! SIZE \<noteq> 0" by (rule set_takeWhileD[THEN conjunct2])
  moreover have "takeWhile (\<lambda>c. c \<noteq> 0) b ! SIZE = b ! SIZE" using l by (rule takeWhile_nth)
  ultimately show False using assms by (simp add: terminated_def)
qed

lemma c_string_full:
  assumes "terminated b" and "\<forall>n<SIZE. b ! n \<noteq> 0"
  shows "c_string b = take SIZE b \<and> length (c_string b) = SIZE"
proof -
  have "takeWhile (\<lambda>c. c \<noteq> 0) b = take SIZE b"
    using assms by (intro takeWhile_eq_take_P_nth) (auto simp: terminated_def)
  with assms(1) show ?thesis by (simp add: c_string_def terminated_def)
qed

lemma band_digit_nonzero: "band_digit n i j \<noteq> 0"
  by (simp add: band_digit_outside)

lemma makePayload_nonzero:
  assumes "length b = SIZE + 1" and "unat i < SIZE" and "n < SIZE"
  shows "makePayload i b ! n \<noteq> 0"
proof (cases n)
  case 0
  from assms(2) have "unat i < 32" by (simp add: SIZE_def)
  from marker_unat[OF this] assms(1)
  have "unat (makePayload i b ! 0) \<noteq> unat (0 :: byte)"
    by (simp add: makePayload_nth split: if_splits)
  with 0 show ?thesis by auto
next
  case (Suc j)
  with assms(3) have "j < 256" by (simp add: SIZE_def)
  from payload_chr_band[OF this, of i] Suc assms(1,3)
  have "makePayload i b ! n = band_digit SIZE (unat i) j" by (simp add: makePayload_nth)
  then show ?thesis by (simp add: band_digit_nonzero)
qed

lemma tick_prints:
  "printed_payloads (trace (loop p t s)) =
     printed_payloads (trace s) @
       (if \<not> role s \<and> available_result t
        then [c_string (radio_read SIZE (read_payload t) (buffer s))] else [])"
proof -
  have i: "printed_payloads (trace (loop_input p t s')) = printed_payloads (trace s')" for s'
    by (simp add: loop_input_cases printed_payloads_append)
  show ?thesis
  proof (cases "role s")
    case True
    from loop_tx_state[of t s] obtain es where
      "trace (loop_tx t s) = trace s @ Radio FlushTx # es" "list_all is_tx_event es" by blast
    with True show ?thesis
      by (simp add: loop_def i printed_payloads_append printed_payloads_tx)
  next
    case False
    then show ?thesis
      by (simp add: loop_def i loop_rx_state printed_payloads_append)
  qed
qed

text \<open>
  C9, as stated, fails in its last part. A received payload may hold a zero byte; then
  \<open>%s\<close> stops there, and the string printed is shorter than \<open>SIZE\<close> characters.
\<close>

theorem C9_counterexample:
  "terminated (buffer initial_state)
   \<and> printed_payloads (trace (loop pico (tick_payload (\<lambda>n. if n = 0 then 65 else 0)) initial_state))
       = [[65]]
   \<and> length [65 :: byte] \<noteq> SIZE"
  by (simp add: loop_def loop_rx_def loop_input_def Let_def initial_state_def tick_payload_def
      tick_idle_def pico_def radio_read_def c_string_def terminated_def SIZE_def upt_conv_Cons)

text \<open>
  C9, amended. The 0 at index \<open>SIZE\<close> of \<open>buffer\<close> is set by \<open>setup\<close> and kept by
  everything after it: makePayload writes only below index \<open>SIZE\<close>, a receive copies
  exactly \<open>SIZE\<close> bytes, and a tick keeps the terminator. So every payload printed from
  the buffer has at most \<open>SIZE\<close> characters, and exactly \<open>SIZE\<close> when the payload received
  holds no zero byte; the payloads that makePayload builds for \<open>i < SIZE\<close> hold none.
\<close>

theorem C9_terminator_kept:
  assumes "terminated (buffer s)"
  shows "terminated (makePayload i (buffer s))
       \<and> (\<forall>n\<ge>SIZE. makePayload i (buffer s) ! n = buffer s ! n)
       \<and> (unat i < SIZE \<longrightarrow> length (c_string (makePayload i (buffer s))) = SIZE)
       \<and> terminated (radio_read SIZE f (buffer s))
       \<and> terminated (buffer (loop p t s))
       \<and> (\<exists>new. printed_payloads (trace (loop p t s)) = printed_payloads (trace s) @ new
            \<and> (\<forall>x\<in>set new. length x \<le> SIZE
                  \<and> ((\<forall>n<SIZE. read_payload t n \<noteq> 0) \<longrightarrow> length x = SIZE)))
       \<and> (\<forall>b s0 ok s1. length (buffer s0) = SIZE + 1 \<and> setup_fn b s0 = Some (ok, s1)
            \<longrightarrow> terminated (buffer s1))"
proof (intro conjI)
  show "terminated (makePayload i (buffer s))" using assms by (rule terminated_makePayload)
  show "\<forall>n\<ge>SIZE. makePayload i (buffer s) ! n = buffer s ! n" by (simp add: makePayload_beyond)
  show "unat i < SIZE \<longrightarrow> length (c_string (makePayload i (buffer s))) = SIZE"
  proof
    assume i: "unat i < SIZE"
    from assms have "length (buffer s) = SIZE + 1" by (simp add: terminated_def)
    then have "\<forall>n<SIZE. makePayload i (buffer s) ! n \<noteq> 0"
      using i by (simp add: makePayload_nonzero)
    with terminated_makePayload[OF assms] show "length (c_string (makePayload i (buffer s))) = SIZE"
      by (rule c_string_full[THEN conjunct2])
  qed
  show "terminated (radio_read SIZE f (buffer s))" using assms by (rule terminated_radio_read)
  show "terminated (buffer (loop p t s))" using assms by (rule terminated_loop)
  show "\<exists>new. printed_payloads (trace (loop p t s)) = printed_payloads (trace s) @ new
            \<and> (\<forall>x\<in>set new. length x \<le> SIZE
                  \<and> ((\<forall>n<SIZE. read_payload t n \<noteq> 0) \<longrightarrow> length x = SIZE))"
  proof -
    let ?b = "radio_read SIZE (read_payload t) (buffer s)"
    let ?new = "if \<not> role s \<and> available_result t then [c_string ?b] else []"
    have t: "terminated ?b" using assms by (rule terminated_radio_read)
    from assms have len: "length (buffer s) = SIZE + 1" by (simp add: terminated_def)
    have "length (c_string ?b) \<le> SIZE" using t by (rule c_string_le)
    moreover have "length (c_string ?b) = SIZE" if "\<forall>n<SIZE. read_payload t n \<noteq> 0"
    proof -
      from that len have "\<forall>n<SIZE. ?b ! n \<noteq> 0" by (simp add: radio_read_nth)
      with t show ?thesis by (rule c_string_full[THEN conjunct2])
    qed
    ultimately have "\<forall>x\<in>set ?new. length x \<le> SIZE
                  \<and> ((\<forall>n<SIZE. read_payload t n \<noteq> 0) \<longrightarrow> length x = SIZE)"
      by simp
    with tick_prints[of p t s] show ?thesis by blast
  qed
  show "\<forall>b s0 ok s1. length (buffer s0) = SIZE + 1 \<and> setup_fn b s0 = Some (ok, s1)
            \<longrightarrow> terminated (buffer s1)"
    using terminated_setup by blast
qed

theorem C9_terminator_kept_witness:
  "terminated (buffer initial_state) \<and> unat (3 :: byte) < SIZE
   \<and> length (buffer initial_state) = SIZE + 1
   \<and> terminated (makePayload 3 (buffer initial_state))
   \<and> length (c_string (makePayload 3 (buffer initial_state))) = SIZE
   \<and> terminated (buffer (loop pico (tick_payload (\<lambda>_. 65)) initial_state))"
proof -
  have h: "terminated (buffer initial_state)"
    by (simp add: terminated_def initial_state_def SIZE_def)
  from C9_terminator_kept[OF h, of 3 "\<lambda>_. 65" pico "tick_payload (\<lambda>_. 65)"] h
  show ?thesis
    by (simp add: SIZE_def tick_payload_def tick_idle_def initial_state_def)
qed


end
